theory Spec2Isabelle
  imports Complex_Main "HOL-Library.Word"
begin

unbundle bit_operations_syntax

section \<open>JavaScript numbers\<close>

text \<open>
  Every number of the program is a double, and the values it computes with are integers. The
  model uses \<open>int\<close>. Every integer of magnitude up to \<open>2 ^ 53\<close> is a double, and sums and
  products that stay in this range are exact.

  \<^item> \<open>calculateLinearPosition\<close> and \<open>delinearizeChunkIndex\<close> are called on grids of any
    size, so their sums and products are \<open>js_add\<close> and \<open>js_mul\<close>, which round the exact
    result to the nearest double as the program does. The theorems about them state the
    bound under which nothing is rounded.
  \<^item> The Hilbert encoding is modelled with exact integers; its theorem carries the bound
    that keeps every value below \<open>2 ^ 53\<close>.
  \<^item> Every other computation (the global index of a cell, the query analysis) handles the
    coordinates of cells and chunks that it enumerates one by one, and is modelled with
    exact integers.

  \<open>Math.floor(a / b)\<close> is \<open>a div b\<close> when \<open>b\<close> is positive and neither magnitude exceeds
  \<open>2 ^ 53\<close>: the rounding error of the quotient is smaller than \<open>1 / b\<close>, and a quotient
  that is not an integer is at least \<open>1 / b\<close> away from the nearest integer. A zero divisor
  gives \<open>NaN\<close> or \<open>Infinity\<close> in the program; the model has no such values, and every
  theorem about a function that divides assumes positive divisors.

  The bitwise operators \<open>&\<close>, \<open>|\<close>, \<open>^\<close> and \<open><<\<close> convert their operands with ToInt32
  (reduction modulo \<open>2 ^ 32\<close>, read as two's complement) and return a signed 32-bit value.
  \<open>%\<close> is the truncating remainder, whose sign follows the dividend; \<open>js_rem\<close> is this
  remainder for a non-zero divisor.
\<close>

definition toInt32 :: "int \<Rightarrow> 32 word" where
  "toInt32 v = word_of_int v"

definition js_and :: "int \<Rightarrow> int \<Rightarrow> int" where
  "js_and a b = sint (toInt32 a AND toInt32 b)"

definition js_or :: "int \<Rightarrow> int \<Rightarrow> int" where
  "js_or a b = sint (toInt32 a OR toInt32 b)"

definition js_xor :: "int \<Rightarrow> int \<Rightarrow> int" where
  "js_xor a b = sint (toInt32 a XOR toInt32 b)"

definition js_shl :: "int \<Rightarrow> nat \<Rightarrow> int" where
  "js_shl a k = sint (push_bit (k mod 32) (toInt32 a))"

definition js_rem :: "int \<Rightarrow> int \<Rightarrow> int" where
  "js_rem a b = sgn a * (\<bar>a\<bar> mod \<bar>b\<bar>)"

text \<open>\<open>Math.ceil(a / b)\<close> for a positive divisor.\<close>

definition ceil_div :: "int \<Rightarrow> int \<Rightarrow> int" where
  "ceil_div a b = - ((- a) div b)"

text \<open>
  The double nearest to an integer. Up to magnitude \<open>2 ^ 53 = 9007199254740992\<close> it is the
  integer itself. A larger integer of \<open>53 + e\<close> bits keeps its leading 53 bits \<open>q\<close>; the
  \<open>e\<close> bits \<open>r\<close> that are cut off round \<open>q\<close> up if they are more than half of \<open>2 ^ e\<close>, or
  exactly half with \<open>q\<close> odd (ties go to the even significand). The overflow to \<open>Infinity\<close>
  beyond \<open>2 ^ 1024\<close> is not modelled; no statement below reaches it.
\<close>

function bitLength :: "int \<Rightarrow> nat" where
  "bitLength v = (if v \<le> 0 then 0 else Suc (bitLength (v div 2)))"
  by pat_completeness auto
termination
  by (relation "measure nat") auto

definition js_double :: "int \<Rightarrow> int" where
  "js_double v =
     (if \<bar>v\<bar> \<le> 9007199254740992 then v
      else (let e = bitLength \<bar>v\<bar> - 53;
                q = \<bar>v\<bar> div 2 ^ e;
                r = \<bar>v\<bar> mod 2 ^ e;
                q1 = (if 2 * r > 2 ^ e \<or> (2 * r = 2 ^ e \<and> odd q) then q + 1 else q)
            in sgn v * (q1 * 2 ^ e)))"

definition js_add :: "int \<Rightarrow> int \<Rightarrow> int" where
  "js_add a b = js_double (a + b)"

definition js_mul :: "int \<Rightarrow> int \<Rightarrow> int" where
  "js_mul a b = js_double (a * b)"

section \<open>GridCoordinate\<close>

record GridCoordinate =
  sizeX :: int
  sizeY :: int
  sizeZ :: int
  algorithm :: string

text \<open>
  The constructor: \<open>sizeZ || 1\<close> replaces a zero depth by 1 and \<open>algorithm || 'row-major'\<close>
  replaces the empty string.
\<close>

definition newGridCoordinate :: "int \<Rightarrow> int \<Rightarrow> int \<Rightarrow> string \<Rightarrow> GridCoordinate" where
  "newGridCoordinate sx sy sz alg =
     \<lparr> sizeX = sx, sizeY = sy,
       sizeZ = max 1 (if sz = 0 then 1 else sz),
       algorithm = (if alg = [] then ''row-major'' else alg) \<rparr>"

subsection \<open>Morton encoding\<close>

function mortonEncode2D_loop :: "int \<Rightarrow> int \<Rightarrow> nat \<Rightarrow> int \<Rightarrow> int" where
  "mortonEncode2D_loop x y i result =
     (if i < 16 then
        mortonEncode2D_loop x y (i + 1)
          (js_or result
             (js_or (js_shl (js_and x (js_shl 1 i)) i)
                    (js_shl (js_and y (js_shl 1 i)) (i + 1))))
      else result)"
  by pat_completeness auto
termination
  by (relation "measure (\<lambda>(x, y, i, result). 16 - i)") auto

definition mortonEncode2D :: "int \<Rightarrow> int \<Rightarrow> int" where
  "mortonEncode2D x y = mortonEncode2D_loop x y 0 0"

function mortonEncode3D_loop :: "int \<Rightarrow> int \<Rightarrow> int \<Rightarrow> nat \<Rightarrow> int \<Rightarrow> int" where
  "mortonEncode3D_loop x y z i result =
     (if i < 10 then
        mortonEncode3D_loop x y z (i + 1)
          (js_or result
             (js_or (js_or (js_shl (js_and x (js_shl 1 i)) (2 * i))
                           (js_shl (js_and y (js_shl 1 i)) (2 * i + 1)))
                    (js_shl (js_and z (js_shl 1 i)) (2 * i + 2))))
      else result)"
  by pat_completeness auto
termination
  by (relation "measure (\<lambda>(x, y, z, i, result). 10 - i)") auto

definition mortonEncode3D :: "int \<Rightarrow> int \<Rightarrow> int \<Rightarrow> int" where
  "mortonEncode3D x y z = mortonEncode3D_loop x y z 0 0"

subsection \<open>Hilbert encoding\<close>

text \<open>
  \<open>nextPowerOfTwo\<close> is \<open>Math.pow(2, Math.ceil(Math.log2(n)))\<close> for \<open>n > 1\<close>. The model
  computes the exponent by repeated halving, which is the exact value of the ceiling of the
  binary logarithm.
\<close>

function ceilLog2 :: "int \<Rightarrow> nat" where
  "ceilLog2 n = (if n \<le> 1 then 0 else Suc (ceilLog2 ((n + 1) div 2)))"
  by pat_completeness auto
termination
  by (relation "measure nat") auto

definition nextPowerOfTwo :: "int \<Rightarrow> int" where
  "nextPowerOfTwo n = (if n \<le> 1 then 1 else 2 ^ ceilLog2 n)"

definition hilbertRotate :: "int \<Rightarrow> int \<Rightarrow> int \<Rightarrow> int \<Rightarrow> int \<Rightarrow> int \<times> int" where
  "hilbertRotate n x y rx ry =
     (if ry = 0 then
        (let (x1, y1) = (if rx = 1 then (n - 1 - x, n - 1 - y) else (x, y))
         in (y1, x1))
      else (x, y))"

text \<open>
  The loop \<open>for (s = n / 2; s > 0; s /= 2)\<close> halves a double, so after \<open>s = 1\<close> it goes on
  with \<open>s = 0.5, 0.25, \<dots>\<close> until the value underflows to zero. In those iterations ToInt32
  turns \<open>s\<close> into 0, both quadrant bits are 0 and the term added to \<open>d\<close> is \<open>s * s * 0 = 0\<close>;
  only \<open>x\<close> and \<open>y\<close> are swapped, and they are not returned. The model therefore halves
  with integer division and stops after \<open>s = 1\<close>.
\<close>

function hilbertLoop :: "int \<Rightarrow> int \<Rightarrow> int \<Rightarrow> int \<Rightarrow> int" where
  "hilbertLoop s x y d =
     (if s > 0 then
        (let rx = (if js_and x s > 0 then 1 else 0);
             ry = (if js_and y s > 0 then 1 else 0);
             d1 = d + s * s * js_xor (3 * rx) ry;
             (x1, y1) = hilbertRotate s x y rx ry
         in hilbertLoop (s div 2) x1 y1 d1)
      else d)"
  by pat_completeness auto
termination
  by (relation "measure (\<lambda>(s, x, y, d). nat s)") auto

definition hilbertEncode2D :: "int \<Rightarrow> int \<Rightarrow> int \<Rightarrow> int" where
  "hilbertEncode2D x y maxDim = (let n = nextPowerOfTwo maxDim in hilbertLoop (n div 2) x y 0)"

subsection \<open>Linear position\<close>

definition calculateLinearPosition :: "GridCoordinate \<Rightarrow> int \<Rightarrow> int \<Rightarrow> int \<Rightarrow> int" where
  "calculateLinearPosition g x y z =
     (if algorithm g = ''row-major'' then
        js_add (js_add x (js_mul y (sizeX g))) (js_mul (js_mul z (sizeX g)) (sizeY g))
      else if algorithm g = ''col-major'' then
        js_add (js_add y (js_mul x (sizeY g))) (js_mul (js_mul z (sizeX g)) (sizeY g))
      else if algorithm g = ''z-order'' then
        (if sizeZ g > 1 then mortonEncode3D x y z else mortonEncode2D x y)
      else if algorithm g = ''hilbert'' then
        (if sizeZ g > 1 then
           js_add (js_mul (js_mul z (sizeX g)) (sizeY g))
             (hilbertEncode2D x y (max (sizeX g) (sizeY g)))
         else hilbertEncode2D x y (max (sizeX g) (sizeY g)))
      else js_add (js_add x (js_mul y (sizeX g))) (js_mul (js_mul z (sizeX g)) (sizeY g)))"


subsection \<open>The memoization cache of \<open>linearize\<close>\<close>

text \<open>
  \<open>LRUCache\<close> wraps a \<open>Map\<close>, which keeps its entries in insertion order with unique keys:
  an association list. A key is the JSON text of the seven inputs of \<open>linearize\<close>, which
  determines them; the tuple stands for it. \<open>get\<close> refreshes an entry only if its value is
  truthy, that is, not 0.
\<close>

type_synonym cacheKey = "int \<times> int \<times> int \<times> int \<times> int \<times> int \<times> string"

record LRUCache =
  maxSize :: int
  cache :: "(cacheKey \<times> int) list"

definition lru_has :: "LRUCache \<Rightarrow> cacheKey \<Rightarrow> bool" where
  "lru_has c k = (map_of (cache c) k \<noteq> None)"

definition lru_get :: "LRUCache \<Rightarrow> cacheKey \<Rightarrow> int option \<times> LRUCache" where
  "lru_get c k =
     (case map_of (cache c) k of
        None \<Rightarrow> (None, c)
      | Some item \<Rightarrow>
          (Some item,
           if item \<noteq> 0 then c\<lparr>cache := filter (\<lambda>e. fst e \<noteq> k) (cache c) @ [(k, item)]\<rparr> else c))"

definition lru_set :: "LRUCache \<Rightarrow> cacheKey \<Rightarrow> int \<Rightarrow> LRUCache" where
  "lru_set c k v =
     (if lru_has c k then c\<lparr>cache := filter (\<lambda>e. fst e \<noteq> k) (cache c) @ [(k, v)]\<rparr>
      else if int (length (cache c)) \<ge> maxSize c \<and> maxSize c > 0
        then c\<lparr>cache := tl (cache c) @ [(k, v)]\<rparr>
      else c\<lparr>cache := cache c @ [(k, v)]\<rparr>)"

text \<open>
  \<open>linearize\<close> with the optional cache of the grid; the result \<open>None\<close> stands for
  \<open>undefined\<close>, which \<open>get\<close> returns for a key that is not there.
\<close>

definition linearize ::
  "GridCoordinate \<Rightarrow> LRUCache option \<Rightarrow> int \<Rightarrow> int \<Rightarrow> int \<Rightarrow> int option \<times> LRUCache option" where
  "linearize g gridCache x y z =
     (let cacheKey = (x, y, z, sizeX g, sizeY g, sizeZ g, algorithm g)
      in case gridCache of
           None \<Rightarrow> (Some (calculateLinearPosition g x y z), None)
         | Some c \<Rightarrow>
             if lru_has c cacheKey then
               (case lru_get c cacheKey of (r, c1) \<Rightarrow> (r, Some c1))
             else
               (let result = calculateLinearPosition g x y z
                in (Some result, Some (lru_set c cacheKey result))))"

text \<open>
  A cache is consistent if every entry holds the value that \<open>calculateLinearPosition\<close>
  computes for its key. The caches of the program start empty and are written by
  \<open>linearize\<close> only.
\<close>

definition cache_consistent :: "LRUCache option \<Rightarrow> bool" where
  "cache_consistent gridCache =
     (case gridCache of
        None \<Rightarrow> True
      | Some c \<Rightarrow>
          list_all (\<lambda>(k, v). case k of (x, y, z, sx, sy, sz, alg) \<Rightarrow>
              v = calculateLinearPosition \<lparr>sizeX = sx, sizeY = sy, sizeZ = sz, algorithm = alg\<rparr> x y z)
            (cache c))"

section \<open>CellCoordinate\<close>

datatype error =
    InvalidRawPos int
  | InvalidRawChunkIndex int
  | InvalidChunkIndex int

type_synonym coords = "int \<times> int \<times> int"

record CellCoordinate = GridCoordinate +
  chunkGrid :: GridCoordinate
  chunkSizeX :: int
  chunkSizeY :: int
  chunkSizeZ :: int

definition newCellCoordinate ::
  "int \<Rightarrow> int \<Rightarrow> int \<Rightarrow> string \<Rightarrow> GridCoordinate \<Rightarrow> int \<Rightarrow> int \<Rightarrow> int \<Rightarrow> CellCoordinate" where
  "newCellCoordinate sx sy sz alg cg cx cy cz =
     \<lparr> sizeX = sx, sizeY = sy,
       sizeZ = max 1 (if sz = 0 then 1 else sz),
       algorithm = (if alg = [] then ''row-major'' else alg),
       chunkGrid = cg, chunkSizeX = cx, chunkSizeY = cy, chunkSizeZ = cz \<rparr>"

definition getParentChunk :: "CellCoordinate \<Rightarrow> int \<Rightarrow> int \<Rightarrow> int \<Rightarrow> coords" where
  "getParentChunk c cellX cellY cellZ =
     (cellX div chunkSizeX c, cellY div chunkSizeY c, cellZ div chunkSizeZ c)"

text \<open>The override of \<open>calculateLinearPosition\<close> in \<open>CellCoordinate\<close>, with explicit sizes.\<close>

definition cellLinearPosition ::
  "CellCoordinate \<Rightarrow> int \<Rightarrow> int \<Rightarrow> int \<Rightarrow> int \<Rightarrow> int \<Rightarrow> int \<Rightarrow> int" where
  "cellLinearPosition c x y z sx sy sz =
     (if algorithm c = ''row-major'' then js_add (js_add x (js_mul y sx)) (js_mul (js_mul z sx) sy)
      else if algorithm c = ''col-major'' then js_add (js_add y (js_mul x sy)) (js_mul (js_mul z sx) sy)
      else if algorithm c = ''z-order'' then
        (if sz > 1 then mortonEncode3D x y z else mortonEncode2D x y)
      else if algorithm c = ''hilbert'' then
        (if sz > 1 then js_add (js_mul (js_mul z sx) sy) (hilbertEncode2D x y (max sx sy))
         else hilbertEncode2D x y (max sx sy))
      else js_add (js_add x (js_mul y sx)) (js_mul (js_mul z sx) sy))"

subsection \<open>Normalization maps\<close>

text \<open>
  \<open>positions.forEach((pos, seqIndex) => map.set(pos, seqIndex))\<close>: a later entry with the
  same key replaces the earlier one.
\<close>

definition forEachSet :: "'a list \<Rightarrow> ('a \<rightharpoonup> int)" where
  "forEachSet xs = fold (\<lambda>(seqIndex, pos) m. m(pos \<mapsto> int seqIndex)) (enumerate 0 xs) Map.empty"

definition localPositions :: "CellCoordinate \<Rightarrow> int \<Rightarrow> int \<Rightarrow> int \<Rightarrow> int list" where
  "localPositions c actualChunkX actualChunkY actualChunkZ =
     concat (map (\<lambda>lz.
       concat (map (\<lambda>ly.
         map (\<lambda>lx. cellLinearPosition c lx ly lz actualChunkX actualChunkY actualChunkZ)
           [0..actualChunkX - 1])
         [0..actualChunkY - 1]))
       [0..actualChunkZ - 1])"

text \<open>
  The position map of a chunk is cached under a key that determines it
  (chunk coordinate, actual dimensions, algorithm) and is never changed afterwards, so a
  lookup in the cache is a lookup in the map built here.
\<close>

definition localPositionMap :: "CellCoordinate \<Rightarrow> int \<Rightarrow> int \<Rightarrow> int \<Rightarrow> (int \<rightharpoonup> int)" where
  "localPositionMap c actualChunkX actualChunkY actualChunkZ =
     forEachSet (sort (localPositions c actualChunkX actualChunkY actualChunkZ))"

definition getNormalizedLocalPosition ::
  "CellCoordinate \<Rightarrow> int \<Rightarrow> coords \<Rightarrow> int \<Rightarrow> int \<Rightarrow> int \<Rightarrow> error + int" where
  "getNormalizedLocalPosition c rawPos chunk actualChunkX actualChunkY actualChunkZ =
     (case localPositionMap c actualChunkX actualChunkY actualChunkZ rawPos of
        None \<Rightarrow> Inl (InvalidRawPos rawPos)
      | Some r \<Rightarrow> Inr r)"

definition getLocalCellIndex :: "CellCoordinate \<Rightarrow> int \<Rightarrow> int \<Rightarrow> int \<Rightarrow> coords \<Rightarrow> error + int" where
  "getLocalCellIndex c cellX cellY cellZ chunk =
     (case chunk of (chX, chY, chZ) \<Rightarrow>
       let chunkStartX = chX * chunkSizeX c;
           chunkStartY = chY * chunkSizeY c;
           chunkStartZ = chZ * chunkSizeZ c;
           chunkEndX = min (chunkStartX + chunkSizeX c) (sizeX c);
           chunkEndY = min (chunkStartY + chunkSizeY c) (sizeY c);
           chunkEndZ = min (chunkStartZ + chunkSizeZ c) (sizeZ c);
           localX = cellX - chunkStartX;
           localY = cellY - chunkStartY;
           localZ = cellZ - chunkStartZ;
           actualChunkX = chunkEndX - chunkStartX;
           actualChunkY = chunkEndY - chunkStartY;
           actualChunkZ = chunkEndZ - chunkStartZ;
           rawPos = cellLinearPosition c localX localY localZ actualChunkX actualChunkY actualChunkZ
       in if algorithm c = ''z-order'' \<or> algorithm c = ''hilbert''
          then getNormalizedLocalPosition c rawPos chunk actualChunkX actualChunkY actualChunkZ
          else Inr rawPos)"

text \<open>
  The chunk grid's normalization: every chunk coordinate with its raw position, sorted by raw
  position (the sort is stable), then the forward map from raw position to sequence index and
  the reverse map from sequence index to chunk coordinate.
\<close>

definition chunkPositions :: "CellCoordinate \<Rightarrow> (int \<times> coords) list" where
  "chunkPositions c =
     concat (map (\<lambda>cz.
       concat (map (\<lambda>cy.
         map (\<lambda>cx. (calculateLinearPosition (chunkGrid c) cx cy cz, (cx, cy, cz)))
           [0..sizeX (chunkGrid c) - 1])
         [0..sizeY (chunkGrid c) - 1]))
       [0..sizeZ (chunkGrid c) - 1])"

definition normalizationMap :: "CellCoordinate \<Rightarrow> (int \<rightharpoonup> int)" where
  "normalizationMap c = forEachSet (map fst (sort_key fst (chunkPositions c)))"

definition reverseMap :: "CellCoordinate \<Rightarrow> (int \<rightharpoonup> coords)" where
  "reverseMap c =
     fold (\<lambda>(seqIndex, item) m. m(int seqIndex \<mapsto> snd item))
       (enumerate 0 (sort_key fst (chunkPositions c))) Map.empty"

definition getNormalizedChunkIndex :: "CellCoordinate \<Rightarrow> int \<Rightarrow> coords \<Rightarrow> error + int" where
  "getNormalizedChunkIndex c rawChunkIndex chunk =
     (case normalizationMap c rawChunkIndex of
        None \<Rightarrow> Inl (InvalidRawChunkIndex rawChunkIndex)
      | Some r \<Rightarrow> Inr r)"

text \<open>
  \<open>delinearizeChunkIndex\<close> reads the reverse map only if \<open>getNormalizedChunkIndex\<close> has stored
  it in \<open>chunkNormalizationCache\<close> before; the flag \<open>cached\<close> says whether it has. Without the
  cache entry, and for every other algorithm, the switch decides.
\<close>

definition delinearizeChunkIndex :: "CellCoordinate \<Rightarrow> bool \<Rightarrow> int \<Rightarrow> error + coords" where
  "delinearizeChunkIndex c cached chunkIndex =
     (let chunksX = sizeX (chunkGrid c);
          chunksY = sizeY (chunkGrid c);
          alg = algorithm (chunkGrid c)
      in if (alg = ''z-order'' \<or> alg = ''hilbert'') \<and> cached then
           (case reverseMap c chunkIndex of
              None \<Rightarrow> Inl (InvalidChunkIndex chunkIndex)
            | Some r \<Rightarrow> Inr r)
         else if alg = ''row-major'' then
           (let z_rm = chunkIndex div js_mul chunksX chunksY;
                xyIndex_rm = js_rem chunkIndex (js_mul chunksX chunksY)
            in Inr (js_rem xyIndex_rm chunksX, xyIndex_rm div chunksX, z_rm))
         else if alg = ''col-major'' then
           (let z_cm = chunkIndex div js_mul chunksX chunksY;
                xyIndex_cm = js_rem chunkIndex (js_mul chunksX chunksY)
            in Inr (xyIndex_cm div chunksY, js_rem xyIndex_cm chunksY, z_cm))
         else
           (let z_default = chunkIndex div js_mul chunksX chunksY;
                xyIndex_default = js_rem chunkIndex (js_mul chunksX chunksY)
            in Inr (js_rem xyIndex_default chunksX, xyIndex_default div chunksX, z_default)))"

definition actualCellsInChunk :: "CellCoordinate \<Rightarrow> coords \<Rightarrow> int" where
  "actualCellsInChunk c chunkCoords =
     (case chunkCoords of (chX, chY, chZ) \<Rightarrow>
       let chunkStartX = chX * chunkSizeX c;
           chunkStartY = chY * chunkSizeY c;
           chunkStartZ = chZ * chunkSizeZ c;
           chunkEndX = min (chunkStartX + chunkSizeX c) (sizeX c);
           chunkEndY = min (chunkStartY + chunkSizeY c) (sizeY c);
           chunkEndZ = min (chunkStartZ + chunkSizeZ c) (sizeZ c)
       in (chunkEndX - chunkStartX) * (chunkEndY - chunkStartY) * (chunkEndZ - chunkStartZ))"

fun cellsBeforeLoop :: "CellCoordinate \<Rightarrow> bool \<Rightarrow> int list \<Rightarrow> int \<Rightarrow> error + int" where
  "cellsBeforeLoop c cached [] cellsBeforeThisChunk = Inr cellsBeforeThisChunk"
| "cellsBeforeLoop c cached (i # is) cellsBeforeThisChunk =
     (case delinearizeChunkIndex c cached i of
        Inl e \<Rightarrow> Inl e
      | Inr chunkCoords \<Rightarrow>
          cellsBeforeLoop c cached is (cellsBeforeThisChunk + actualCellsInChunk c chunkCoords))"

definition calculateCellsBeforeChunk :: "CellCoordinate \<Rightarrow> bool \<Rightarrow> int \<Rightarrow> error + int" where
  "calculateCellsBeforeChunk c cached chunkIndex = cellsBeforeLoop c cached [0..chunkIndex - 1] 0"

text \<open>
  \<open>chunkGrid.linearize\<close> memoizes \<open>calculateLinearPosition\<close> under a key made of all its
  inputs, so it returns the value computed here. When the chunk algorithm is a space-filling
  curve, \<open>getNormalizedChunkIndex\<close> runs before \<open>calculateCellsBeforeChunk\<close> and leaves the
  reverse map in the cache.
\<close>

definition getGlobalIndex :: "CellCoordinate \<Rightarrow> int \<Rightarrow> int \<Rightarrow> int \<Rightarrow> error + int" where
  "getGlobalIndex c cellX cellY cellZ =
     (let chunk = getParentChunk c cellX cellY cellZ;
          rawChunkIndex = (case chunk of (chX, chY, chZ) \<Rightarrow>
             calculateLinearPosition (chunkGrid c) chX chY chZ);
          curve = (algorithm (chunkGrid c) = ''z-order'' \<or> algorithm (chunkGrid c) = ''hilbert'')
      in case (if curve then getNormalizedChunkIndex c rawChunkIndex chunk else Inr rawChunkIndex) of
           Inl e \<Rightarrow> Inl e
         | Inr chunkIndex \<Rightarrow>
            (case calculateCellsBeforeChunk c curve chunkIndex of
               Inl e \<Rightarrow> Inl e
             | Inr cellsBeforeThisChunk \<Rightarrow>
                (case getLocalCellIndex c cellX cellY cellZ chunk of
                   Inl e \<Rightarrow> Inl e
                 | Inr localCellIndex \<Rightarrow> Inr (cellsBeforeThisChunk + localCellIndex))))"

text \<open>\<open>SimulationModel.getCellCoordinateSystem\<close> for array size and chunk size.\<close>

definition getCellCoordinateSystem ::
  "coords \<Rightarrow> coords \<Rightarrow> string \<Rightarrow> string \<Rightarrow> CellCoordinate" where
  "getCellCoordinateSystem arraySize chunk cellAlgorithm chunkAlgorithm =
     (case arraySize of (sx, sy, sz) \<Rightarrow> case chunk of (chunkX, chunkY, chunkZ) \<Rightarrow>
        let chunksX = ceil_div sx chunkX;
            chunksY = ceil_div sy chunkY;
            chunksZ = ceil_div sz chunkZ;
            chunkGrid = newGridCoordinate chunksX chunksY chunksZ chunkAlgorithm
        in newCellCoordinate sx sy sz cellAlgorithm chunkGrid chunkX chunkY chunkZ)"


section \<open>SimulationModel\<close>

text \<open>
  The parameters of a computation. \<open>arraySize\<close> is the field \<open>size\<close> of the source; the
  query holds the closed intervals \<open>query.x\<close>, \<open>query.y\<close> and \<open>query.z\<close>.
\<close>

record params =
  arraySize :: coords
  chunk :: coords
  cellAlgorithm :: string
  chunkAlgorithm :: string
  queryX :: "int \<times> int"
  queryY :: "int \<times> int"
  queryZ :: "int \<times> int"

text \<open>
  A \<open>Set\<close> keeps its elements in insertion order and ignores an element it already holds:
  a list without duplicates. The cell keys \<open>`${x},${y},${z}`\<close> are in one-to-one
  correspondence with integer triples, which stand for them here.
\<close>

definition set_add :: "'a list \<Rightarrow> 'a \<Rightarrow> 'a list" where
  "set_add s v = (if v \<in> set s then s else s @ [v])"

definition getGlobalPosition :: "int \<Rightarrow> int \<Rightarrow> int \<Rightarrow> params \<Rightarrow> error + int" where
  "getGlobalPosition x y z p =
     getGlobalIndex (getCellCoordinateSystem (arraySize p) (chunk p) (cellAlgorithm p) (chunkAlgorithm p))
       x y z"

definition getChunkIndex :: "int \<Rightarrow> int \<Rightarrow> int \<Rightarrow> params \<Rightarrow> int" where
  "getChunkIndex x y z p =
     (case chunk p of (chunkX, chunkY, chunkZ) \<Rightarrow> case arraySize p of (sx, sy, sz) \<Rightarrow>
        let cx = x div chunkX;
            cy = y div chunkY;
            cz = z div chunkZ;
            chunksX = ceil_div sx chunkX;
            chunksY = ceil_div sy chunkY
        in cx + cy * chunksX + cz * chunksX * chunksY)"

definition requestedLoopZ ::
  "params \<Rightarrow> int \<Rightarrow> int \<Rightarrow> int \<Rightarrow> coords list \<times> int list \<Rightarrow> coords list \<times> int list" where
  "requestedLoopZ p sz x y st =
     fold (\<lambda>z (requestedCells, touchedChunks).
             (set_add requestedCells (x, y, z), set_add touchedChunks (getChunkIndex x y z p)))
       [fst (queryZ p)..min (snd (queryZ p)) (sz - 1)] st"

definition requestedLoopY ::
  "params \<Rightarrow> int \<Rightarrow> int \<Rightarrow> int \<Rightarrow> coords list \<times> int list \<Rightarrow> coords list \<times> int list" where
  "requestedLoopY p sy sz x st =
     fold (\<lambda>y st1.
             if sz > 0 then requestedLoopZ p sz x y st1
             else (case st1 of (requestedCells, touchedChunks) \<Rightarrow>
                     (set_add requestedCells (x, y, 0), set_add touchedChunks (getChunkIndex x y 0 p))))
       [fst (queryY p)..min (snd (queryY p)) (sy - 1)] st"

definition calculateRequestedCellsAndChunks ::
  "params \<Rightarrow> int \<Rightarrow> int \<Rightarrow> int \<Rightarrow> coords list \<times> int list" where
  "calculateRequestedCellsAndChunks p sx sy sz =
     fold (\<lambda>x st. requestedLoopY p sy sz x st)
       [fst (queryX p)..min (snd (queryX p)) (sx - 1)] ([], [])"

definition getChunkCoordsFromIndex :: "int \<Rightarrow> int \<Rightarrow> int \<Rightarrow> coords" where
  "getChunkCoordsFromIndex chunkIdx chunksX chunksY =
     (let cz = chunkIdx div (chunksX * chunksY);
          cy = js_rem chunkIdx (chunksX * chunksY) div chunksX;
          cx = js_rem chunkIdx chunksX
      in (cx, cy, cz))"

definition addChunkCells ::
  "coords list \<Rightarrow> coords \<Rightarrow> params \<Rightarrow> int \<Rightarrow> int \<Rightarrow> int \<Rightarrow> coords list" where
  "addChunkCells actualCells chunkCoords p sx sy sz =
     (case chunk p of (chunkX, chunkY, chunkZ) \<Rightarrow> case chunkCoords of (cx, cy, cz) \<Rightarrow>
        fold (\<lambda>dx acc1.
          fold (\<lambda>dy acc2.
            fold (\<lambda>dz acc3.
              let x = cx * chunkX + dx;
                  y = cy * chunkY + dy;
                  z = cz * chunkZ + dz
              in if x < sx \<and> y < sy \<and> (sz = 0 \<or> z < sz) then set_add acc3 (x, y, z) else acc3)
              [0..(if sz > 0 then chunkZ else 1) - 1] acc2)
            [0..chunkY - 1] acc1)
          [0..chunkX - 1] actualCells)"

definition calculateActualCellsFromChunks ::
  "int list \<Rightarrow> params \<Rightarrow> int \<Rightarrow> int \<Rightarrow> int \<Rightarrow> coords list" where
  "calculateActualCellsFromChunks touchedChunks p sx sy sz =
     (case chunk p of (chunkX, chunkY, chunkZ) \<Rightarrow>
        let chunksX = ceil_div sx chunkX;
            chunksY = ceil_div sy chunkY
        in fold (\<lambda>chunkIdx actualCells.
                   addChunkCells actualCells (getChunkCoordsFromIndex chunkIdx chunksX chunksY) p sx sy sz)
             touchedChunks [])"

text \<open>An exception thrown by \<open>getGlobalPosition\<close> inside \<open>map\<close> ends the whole computation.\<close>

fun cellSetToPositions :: "coords list \<Rightarrow> params \<Rightarrow> error + int list" where
  "cellSetToPositions [] p = Inr []"
| "cellSetToPositions ((x, y, z) # cells) p =
     (case getGlobalPosition x y z p of
        Inl e \<Rightarrow> Inl e
      | Inr v \<Rightarrow> (case cellSetToPositions cells p of Inl e \<Rightarrow> Inl e | Inr vs \<Rightarrow> Inr (v # vs)))"

fun byteRangesLoop :: "int list \<Rightarrow> int \<Rightarrow> int \<Rightarrow> (int \<times> int) list \<Rightarrow> (int \<times> int) list" where
  "byteRangesLoop [] start end ranges = ranges @ [(start, end)]"
| "byteRangesLoop (v # vs) start end ranges =
     (if v = end + 1 then byteRangesLoop vs start v ranges
      else byteRangesLoop vs v v (ranges @ [(start, end)]))"

definition calculateByteRanges :: "int list \<Rightarrow> (int \<times> int) list" where
  "calculateByteRanges positions =
     (if length positions = 0 then []
      else (case sort positions of
              [] \<Rightarrow> []
            | v # vs \<Rightarrow> byteRangesLoop vs v v []))"

record resultBundle =
  requestedCells :: "coords list"
  actualCells :: "coords list"
  touchedChunks :: "int list"
  chunkedRanges :: "(int \<times> int) list"
  unchunkedRanges :: "(int \<times> int) list"
  totalCells :: int

definition calculateData :: "params \<Rightarrow> error + resultBundle" where
  "calculateData p =
     (case arraySize p of (sx, sy, sz) \<Rightarrow>
        let total = sx * sy * max 1 sz;
            (requested, touched) = calculateRequestedCellsAndChunks p sx sy sz;
            actual = calculateActualCellsFromChunks touched p sx sy sz
        in case cellSetToPositions actual p of
             Inl e \<Rightarrow> Inl e
           | Inr actualPositions \<Rightarrow>
              (case cellSetToPositions requested p of
                 Inl e \<Rightarrow> Inl e
               | Inr requestedPositions \<Rightarrow>
                   Inr \<lparr> requestedCells = requested, actualCells = actual, touchedChunks = touched,
                         chunkedRanges = calculateByteRanges actualPositions,
                         unchunkedRanges = calculateByteRanges requestedPositions,
                         totalCells = total \<rparr>))"


section \<open>Notions of the specification\<close>








text \<open>
  The two components of a global index as \<open>getGlobalIndex\<close> computes them: the dense index of
  the parent chunk (normalized for the space-filling curves) and the dense local rank of the
  cell inside that chunk.
\<close>

definition denseChunkIndex :: "CellCoordinate \<Rightarrow> int \<Rightarrow> int \<Rightarrow> int \<Rightarrow> error + int" where
  "denseChunkIndex c cellX cellY cellZ =
     (let chunk = getParentChunk c cellX cellY cellZ;
          rawChunkIndex = (case chunk of (chX, chY, chZ) \<Rightarrow>
             calculateLinearPosition (chunkGrid c) chX chY chZ)
      in if algorithm (chunkGrid c) = ''z-order'' \<or> algorithm (chunkGrid c) = ''hilbert''
         then getNormalizedChunkIndex c rawChunkIndex chunk else Inr rawChunkIndex)"

definition denseLocalRank :: "CellCoordinate \<Rightarrow> int \<Rightarrow> int \<Rightarrow> int \<Rightarrow> error + int" where
  "denseLocalRank c cellX cellY cellZ =
     getLocalCellIndex c cellX cellY cellZ (getParentChunk c cellX cellY cellZ)"

text \<open>
  \<open>hilbert2D\<close> as the specification words it, for a grid of side \<open>n\<close>: at each scale
  \<open>s = n/2, n/4, \<dots>, 1\<close> the quadrant bits are \<open>rx = (x & s) != 0\<close> and \<open>ry = (y & s) != 0\<close>,
  \<open>d\<close> grows by \<open>s\<^sup>2 * ((3 * rx) xor ry)\<close>, and if \<open>ry = 0\<close> the point is reflected to
  \<open>(n - 1 - x, n - 1 - y)\<close> when \<open>rx = 1\<close> and then its coordinates are swapped. The bit
  operations are those of the integers.
\<close>

function hilbert2D_spec_loop :: "int \<Rightarrow> int \<Rightarrow> int \<Rightarrow> int \<Rightarrow> int \<Rightarrow> int" where
  "hilbert2D_spec_loop n s x y d =
     (if s \<ge> 1 then
        (let rx = (if x AND s \<noteq> 0 then 1 else 0);
             ry = (if y AND s \<noteq> 0 then 1 else 0);
             d1 = d + s ^ 2 * ((3 * rx) XOR ry);
             (x1, y1) =
               (if ry = 0 then
                  (let (xr, yr) = (if rx = 1 then (n - 1 - x, n - 1 - y) else (x, y))
                   in (yr, xr))
                else (x, y))
         in hilbert2D_spec_loop n (s div 2) x1 y1 d1)
      else d)"
  by pat_completeness auto
termination
  by (relation "measure (\<lambda>(n, s, x, y, d). nat s)") auto

definition hilbert2D_spec :: "int \<Rightarrow> int \<Rightarrow> int \<Rightarrow> int" where
  "hilbert2D_spec n x y = hilbert2D_spec_loop n (n div 2) x y 0"

text \<open>The loop of \<open>hilbertEncode2D\<close> for a grid of side \<open>2 ^ k\<close>, started with \<open>d = 0\<close>.\<close>

definition hilbertLevels :: "nat \<Rightarrow> int \<Rightarrow> int \<Rightarrow> int" where
  "hilbertLevels k x y = hilbertLoop (2 ^ k div 2) x y 0"

section \<open>Arithmetic of the row-major layout\<close>

lemma js_rem_nonneg: "0 \<le> a \<Longrightarrow> 0 < b \<Longrightarrow> js_rem a b = a mod b"
  by (cases "a = 0") (simp_all add: js_rem_def)

lemma row_major_xy:
  fixes cx cy X :: int
  assumes "0 \<le> cx" "cx < X" "0 \<le> cy"
  shows "(cx + cy * X) mod X = cx" "(cx + cy * X) div X = cy"
  using assms by simp_all

lemma row_major_z:
  fixes cx cy cz X Y :: int
  assumes "0 \<le> cx" "cx < X" "0 \<le> cy" "cy < Y" "0 \<le> cz"
  shows "(cx + cy * X + cz * X * Y) div (X * Y) = cz"
    and "(cx + cy * X + cz * X * Y) mod (X * Y) = cx + cy * X"
proof -
  have xy: "cx + cy * X < X * Y"
  proof -
    have "cx + cy * X < X + cy * X" using assms by simp
    also have "\<dots> = (cy + 1) * X" by (simp add: algebra_simps)
    also have "\<dots> \<le> Y * X" using assms by (intro mult_right_mono) auto
    finally show ?thesis by (simp add: mult.commute)
  qed
  have nn: "0 \<le> cx + cy * X" using assms by (simp add: mult_nonneg_nonneg)
  have e: "cx + cy * X + cz * X * Y = (cx + cy * X) + cz * (X * Y)" by (simp add: algebra_simps)
  have p: "X * Y \<noteq> 0" using xy nn by auto
  show "(cx + cy * X + cz * X * Y) div (X * Y) = cz"
    unfolding e using xy nn p by (simp add: div_pos_pos_trivial)
  show "(cx + cy * X + cz * X * Y) mod (X * Y) = cx + cy * X"
    unfolding e using xy nn p by (simp add: mod_pos_pos_trivial)
qed

section \<open>Exact sums and products\<close>

lemma js_double_exact: "\<bar>v\<bar> \<le> 2 ^ 53 \<Longrightarrow> js_double v = v"
  by (simp add: js_double_def)

lemma js_add_exact: "\<bar>a + b\<bar> \<le> 2 ^ 53 \<Longrightarrow> js_add a b = a + b"
  unfolding js_add_def by (rule js_double_exact)

lemma js_mul_exact: "\<bar>a * b\<bar> \<le> 2 ^ 53 \<Longrightarrow> js_mul a b = a * b"
  unfolding js_mul_def by (rule js_double_exact)

lemma js_mul_zero: "js_mul a 0 = 0"
  by (simp add: js_mul_def js_double_def)

text \<open>
  The layout formula \<open>a + b * s + z * X * Y\<close>, evaluated from left to right as the program
  does, is exact when the magnitudes of its three terms add up to at most \<open>2 ^ 53\<close>.
\<close>

lemma layout_exact:
  fixes a b s z X Y :: int
  assumes le: "\<bar>a\<bar> + \<bar>b\<bar> * \<bar>s\<bar> + \<bar>z\<bar> * \<bar>X\<bar> * \<bar>Y\<bar> \<le> 2 ^ 53"
  shows "js_add (js_add a (js_mul b s)) (js_mul (js_mul z X) Y) = a + b * s + z * X * Y"
proof -
  define B :: int where "B = 2 ^ 53"
  have nn: "0 \<le> \<bar>b\<bar> * \<bar>s\<bar>" "0 \<le> \<bar>z\<bar> * \<bar>X\<bar> * \<bar>Y\<bar>" "0 \<le> \<bar>z\<bar> * \<bar>X\<bar>" by simp_all
  have le': "\<bar>a\<bar> + \<bar>b\<bar> * \<bar>s\<bar> + \<bar>z\<bar> * \<bar>X\<bar> * \<bar>Y\<bar> \<le> B" using le by (simp add: B_def)
  have bs: "\<bar>b * s\<bar> \<le> B" unfolding abs_mult using le' nn by linarith
  have m1: "js_mul b s = b * s" by (rule js_mul_exact) (use bs in \<open>simp add: B_def\<close>)
  have "\<bar>a + b * s\<bar> \<le> \<bar>a\<bar> + \<bar>b * s\<bar>" by (rule abs_triangle_ineq)
  then have abs1: "\<bar>a + b * s\<bar> \<le> B" unfolding abs_mult using le' nn by linarith
  have a1: "js_add a (b * s) = a + b * s" by (rule js_add_exact) (use abs1 in \<open>simp add: B_def\<close>)
  have zxy: "\<bar>z * X * Y\<bar> \<le> B" unfolding abs_mult using le' nn by linarith
  have m2: "js_mul (js_mul z X) Y = z * X * Y"
  proof (cases "Y = 0")
    case True
    then show ?thesis by (simp add: js_mul_zero)
  next
    case False
    then have "1 \<le> \<bar>Y\<bar>" by simp
    then have "\<bar>z\<bar> * \<bar>X\<bar> * 1 \<le> \<bar>z\<bar> * \<bar>X\<bar> * \<bar>Y\<bar>" using nn(3) by (intro mult_left_mono) simp_all
    then have "\<bar>z * X\<bar> \<le> B" unfolding abs_mult mult_1_right using le' nn by linarith
    then have "js_mul z X = z * X" by (intro js_mul_exact) (simp add: B_def)
    moreover have "js_mul (z * X) Y = z * X * Y" by (rule js_mul_exact) (use zxy in \<open>simp add: B_def\<close>)
    ultimately show ?thesis by simp
  qed
  have "\<bar>(a + b * s) + z * X * Y\<bar> \<le> \<bar>a + b * s\<bar> + \<bar>z * X * Y\<bar>" by (rule abs_triangle_ineq)
  moreover have "\<bar>a + b * s\<bar> \<le> \<bar>a\<bar> + \<bar>b * s\<bar>" by (rule abs_triangle_ineq)
  ultimately have "\<bar>(a + b * s) + z * X * Y\<bar> \<le> B" unfolding abs_mult using le' by linarith
  then have a2: "js_add (a + b * s) (z * X * Y) = a + b * s + z * X * Y"
    by (intro js_add_exact) (simp add: B_def)
  show ?thesis by (simp only: m1 a1 m2 a2)
qed

text \<open>A coordinate inside a grid of at most \<open>2 ^ 53\<close> positions has an exact layout formula.\<close>

lemma inside_grid_bound:
  fixes a b z s t Z :: int
  assumes b: "0 \<le> a" "a < s" "0 \<le> b" "b < t" "0 \<le> z" "z < Z"
    and le: "s * t * Z \<le> 2 ^ 53"
  shows "\<bar>a\<bar> + \<bar>b\<bar> * \<bar>s\<bar> + \<bar>z\<bar> * \<bar>s\<bar> * \<bar>t\<bar> \<le> 2 ^ 53" and "s * t \<le> 2 ^ 53"
proof -
  have pos: "0 < s" "0 < t" "0 < s * t" using b by auto
  have "b * s \<le> (t - 1) * s" using b pos by (intro mult_right_mono) simp_all
  moreover have "z * (s * t) \<le> (Z - 1) * (s * t)" using b pos by (intro mult_right_mono) simp_all
  ultimately have "a + b * s + z * (s * t) \<le> (s - 1) + (t - 1) * s + (Z - 1) * (s * t)"
    using b by linarith
  also have "\<dots> = s * t * Z - 1" by (simp add: algebra_simps)
  finally have "a + b * s + z * s * t \<le> 2 ^ 53" using le by (simp add: mult.assoc)
  then show "\<bar>a\<bar> + \<bar>b\<bar> * \<bar>s\<bar> + \<bar>z\<bar> * \<bar>s\<bar> * \<bar>t\<bar> \<le> 2 ^ 53"
    using b pos by (simp add: abs_of_nonneg abs_of_pos)
  have "s * t * 1 \<le> s * t * Z" using b pos by (intro mult_left_mono) simp_all
  then show "s * t \<le> 2 ^ 53" using le by simp
qed

section \<open>Chunk index round trip\<close>

text \<open>
  Claim C9, as amended. For the row-major and the col-major chunk ordering on a chunk grid of
  at most \<open>2 ^ 53\<close> chunks, \<open>delinearizeChunkIndex\<close> applied to the linear position of a
  chunk coordinate inside the grid returns that coordinate, whether or not the normalization
  cache has been built.
\<close>

theorem delinearize_linearize_roundtrip:
  assumes alg: "algorithm (chunkGrid c) = ''row-major'' \<or> algorithm (chunkGrid c) = ''col-major''"
    and b: "0 \<le> cx" "cx < sizeX (chunkGrid c)" "0 \<le> cy" "cy < sizeY (chunkGrid c)"
      "0 \<le> cz" "cz < sizeZ (chunkGrid c)"
    and le: "sizeX (chunkGrid c) * sizeY (chunkGrid c) * sizeZ (chunkGrid c) \<le> 2 ^ 53"
  shows "delinearizeChunkIndex c cached (calculateLinearPosition (chunkGrid c) cx cy cz)
           = Inr (cx, cy, cz)"
proof -
  let ?X = "sizeX (chunkGrid c)" and ?Y = "sizeY (chunkGrid c)"
  have pos: "0 < ?X" "0 < ?Y" "0 < ?X * ?Y" using b by auto
  have xy: "js_mul ?X ?Y = ?X * ?Y"
    using inside_grid_bound(2)[OF b le] pos by (intro js_mul_exact) simp
  from alg show ?thesis
  proof
    assume a: "algorithm (chunkGrid c) = ''row-major''"
    have f: "calculateLinearPosition (chunkGrid c) cx cy cz = cx + cy * ?X + cz * ?X * ?Y"
      unfolding calculateLinearPosition_def using a
      by (simp add: layout_exact[OF inside_grid_bound(1)[OF b le]])
    have nn: "0 \<le> cx + cy * ?X + cz * ?X * ?Y" using b by simp
    have nn2: "0 \<le> cx + cy * ?X" using b by simp
    show ?thesis
      unfolding f
      using row_major_z[OF b(1-5)] row_major_xy[OF b(1,2,3)] pos nn nn2
      by (simp add: delinearizeChunkIndex_def a Let_def js_rem_nonneg xy)
  next
    assume a: "algorithm (chunkGrid c) = ''col-major''"
    have le2: "?Y * ?X * sizeZ (chunkGrid c) \<le> 2 ^ 53" using le by (simp add: mult.commute)
    have "\<bar>cy\<bar> + \<bar>cx\<bar> * \<bar>?Y\<bar> + \<bar>cz\<bar> * \<bar>?Y\<bar> * \<bar>?X\<bar> \<le> 2 ^ 53"
      by (rule inside_grid_bound(1)[OF b(3,4,1,2,5,6) le2])
    then have "\<bar>cy\<bar> + \<bar>cx\<bar> * \<bar>?Y\<bar> + \<bar>cz\<bar> * \<bar>?X\<bar> * \<bar>?Y\<bar> \<le> 2 ^ 53"
      by (simp add: mult.assoc mult.left_commute mult.commute)
    then have f: "calculateLinearPosition (chunkGrid c) cx cy cz = cy + cx * ?Y + cz * ?X * ?Y"
      unfolding calculateLinearPosition_def using a by (simp add: layout_exact)
    have nn: "0 \<le> cy + cx * ?Y + cz * ?X * ?Y" using b by simp
    have nn2: "0 \<le> cy + cx * ?Y" using b by simp
    have z: "(cy + cx * ?Y + cz * ?Y * ?X) div (?Y * ?X) = cz"
      "(cy + cx * ?Y + cz * ?Y * ?X) mod (?Y * ?X) = cy + cx * ?Y"
      using row_major_z[OF b(3,4,1,2,5)] by simp_all
    have e: "cz * ?X * ?Y = cz * ?Y * ?X" "?X * ?Y = ?Y * ?X" by simp_all
    show ?thesis
      unfolding f
      using z row_major_xy[OF b(3,4,1)] pos nn nn2
      by (simp add: delinearizeChunkIndex_def a Let_def js_rem_nonneg xy e)
  qed
qed

theorem delinearize_linearize_roundtrip_witness:
  "delinearizeChunkIndex (getCellCoordinateSystem (5, 4, 2) (2, 2, 1) ''z-order'' ''col-major'') False
     (calculateLinearPosition
        (chunkGrid (getCellCoordinateSystem (5, 4, 2) (2, 2, 1) ''z-order'' ''col-major'')) 2 1 1)
   = Inr (2, 1, 1)"
  using delinearize_linearize_roundtrip
    [of "getCellCoordinateSystem (5, 4, 2) (2, 2, 1) ''z-order'' ''col-major''" 2 1 1 False]
  by (simp add: getCellCoordinateSystem_def newCellCoordinate_def newGridCoordinate_def ceil_div_def)

text \<open>
  The claim as stated fails on a grid of more than \<open>2 ^ 53\<close> chunks. In the row-major chunk
  grid of size \<open>(2 ^ 53, 2, 1)\<close> the position of the chunk \<open>(1, 1, 0)\<close> is
  \<open>1 + 1 * 2 ^ 53\<close>, which is not a double and is rounded to \<open>2 ^ 53\<close>, the position of the
  chunk \<open>(0, 1, 0)\<close>.
\<close>

theorem delinearize_linearize_large_grid_counterexample:
  "calculateLinearPosition (newGridCoordinate 9007199254740992 2 1 ''row-major'') 1 1 0
     = 9007199254740992 \<and>
   delinearizeChunkIndex
     (newCellCoordinate 9007199254740992 2 1 ''row-major''
        (newGridCoordinate 9007199254740992 2 1 ''row-major'') 1 1 1) False
     (calculateLinearPosition (newGridCoordinate 9007199254740992 2 1 ''row-major'') 1 1 0)
     = Inr (0, 1, 0)"
  by code_simp

section \<open>Unknown algorithm identifiers\<close>

lemma linearize_consistent_value:
  assumes "cache_consistent gc"
  shows "fst (linearize g gc x y z) = Some (calculateLinearPosition g x y z)"
proof (cases gc)
  case None
  then show ?thesis by (simp add: linearize_def)
next
  case (Some c)
  let ?k = "(x, y, z, sizeX g, sizeY g, sizeZ g, algorithm g)"
  show ?thesis
  proof (cases "map_of (cache c) ?k")
    case None
    then show ?thesis using Some by (simp add: linearize_def lru_has_def Let_def)
  next
    case (Some v)
    then have "(?k, v) \<in> set (cache c)" by (rule map_of_SomeD)
    with assms \<open>gc = Some c\<close> have "v = calculateLinearPosition
        \<lparr>sizeX = sizeX g, sizeY = sizeY g, sizeZ = sizeZ g, algorithm = algorithm g\<rparr> x y z"
      by (auto simp: cache_consistent_def list_all_iff simp del: GridCoordinate.simps)
    also have "\<lparr>sizeX = sizeX g, sizeY = sizeY g, sizeZ = sizeZ g, algorithm = algorithm g\<rparr> = g"
      by (cases g) simp
    finally have "v = calculateLinearPosition g x y z" .
    with Some \<open>gc = Some c\<close> show ?thesis
      by (simp add: linearize_def lru_has_def lru_get_def Let_def)
  qed
qed

lemma linearize_preserves_consistent:
  assumes "cache_consistent gc"
  shows "cache_consistent (snd (linearize g gc x y z))"
proof (cases gc)
  case None
  then show ?thesis by (simp add: linearize_def cache_consistent_def)
next
  case (Some c)
  let ?k = "(x, y, z, sizeX g, sizeY g, sizeZ g, algorithm g)"
  let ?P = "\<lambda>(k, v). case k of (x, y, z, sx, sy, sz, alg) \<Rightarrow>
              v = calculateLinearPosition \<lparr>sizeX = sx, sizeY = sy, sizeZ = sz, algorithm = alg\<rparr> x y z"
  have all: "list_all ?P (cache c)" using assms Some by (simp add: cache_consistent_def)
  have new: "?P (?k, calculateLinearPosition g x y z)" by (cases g) simp
  have tl: "list_all ?P (tl (cache c))" using all by (cases "cache c") simp_all
  have flt: "list_all ?P (filter (\<lambda>e. fst e \<noteq> ?k) (cache c))"
    using all by (simp add: list_all_iff)
  show ?thesis
  proof (cases "map_of (cache c) ?k")
    case None
    then show ?thesis using Some all new tl
      by (simp add: linearize_def lru_has_def lru_set_def cache_consistent_def Let_def)
  next
    case (Some v)
    then have "(?k, v) \<in> set (cache c)" by (rule map_of_SomeD)
    with all have "?P (?k, v)" by (auto simp: list_all_iff)
    with Some \<open>gc = Some c\<close> all flt show ?thesis
      by (simp add: linearize_def lru_has_def lru_get_def cache_consistent_def Let_def)
  qed
qed

text \<open>
  Claim C10, as amended. For an algorithm identifier outside the four known ones and a grid
  with positive \<open>sizeX\<close> and \<open>sizeY\<close>, nothing raises and the row-major formulas apply as
  long as the values are exact:

  \<^item> \<open>linearize\<close> (with no cache or a consistent one) and \<open>calculateLinearPosition\<close> return
    \<open>x + y * sizeX + z * sizeX * sizeY\<close> when the magnitudes of the three terms add up to at
    most \<open>2 ^ 53\<close>;
  \<^item> when \<open>sizeX * sizeY\<close> is at most \<open>2 ^ 53\<close>, \<open>delinearizeChunkIndex\<close> returns the
    row-major decomposition of an index of magnitude at most \<open>2 ^ 53\<close>;
  \<^item> and it then inverts the linear position of every coordinate inside the grid whose
    position is at most \<open>2 ^ 53\<close>.
\<close>

theorem unknown_algorithm_row_major_fallback:
  assumes out: "alg \<notin> {''row-major'', ''col-major'', ''z-order'', ''hilbert''}"
    and g: "g = newGridCoordinate X Y Z alg"
    and cg: "chunkGrid c = g"
    and cons: "cache_consistent gc"
    and sizes: "1 \<le> X" "1 \<le> Y"
  shows "(\<bar>x\<bar> + \<bar>y\<bar> * X + \<bar>z\<bar> * X * Y \<le> 2 ^ 53 \<longrightarrow>
            fst (linearize g gc x y z) = Some (x + y * X + z * X * Y) \<and>
            calculateLinearPosition g x y z = x + y * X + z * X * Y) \<and>
         (X * Y \<le> 2 ^ 53 \<and> \<bar>i\<bar> \<le> 2 ^ 53 \<longrightarrow>
            delinearizeChunkIndex c cached i =
              Inr (js_rem (js_rem i (X * Y)) X, js_rem i (X * Y) div X, i div (X * Y))) \<and>
         (0 \<le> x \<and> x < X \<and> 0 \<le> y \<and> y < Y \<and> 0 \<le> z \<and>
          X * Y \<le> 2 ^ 53 \<and> x + y * X + z * X * Y \<le> 2 ^ 53 \<longrightarrow>
            delinearizeChunkIndex c cached (calculateLinearPosition g x y z) = Inr (x, y, z))"
proof -
  have ab: "\<bar>X\<bar> = X" "\<bar>Y\<bar> = Y" using sizes by simp_all
  have calc: "calculateLinearPosition g x y z = x + y * X + z * X * Y"
    if "\<bar>x\<bar> + \<bar>y\<bar> * X + \<bar>z\<bar> * X * Y \<le> 2 ^ 53"
  proof -
    have "\<bar>x\<bar> + \<bar>y\<bar> * \<bar>X\<bar> + \<bar>z\<bar> * \<bar>X\<bar> * \<bar>Y\<bar> \<le> 2 ^ 53" unfolding ab by (rule that)
    then show ?thesis
      using out by (simp add: g calculateLinearPosition_def newGridCoordinate_def layout_exact)
  qed
  have delin: "delinearizeChunkIndex c cached j =
           Inr (js_rem (js_rem j (X * Y)) X, js_rem j (X * Y) div X, j div (X * Y))"
    if "X * Y \<le> 2 ^ 53" for j
  proof -
    have "0 \<le> X * Y" using sizes by simp
    then have "js_mul X Y = X * Y" using that by (intro js_mul_exact) simp
    then show ?thesis
      using out by (simp add: cg g delinearizeChunkIndex_def newGridCoordinate_def Let_def)
  qed
  have inv: "delinearizeChunkIndex c cached (calculateLinearPosition g x y z) = Inr (x, y, z)"
    if b: "0 \<le> x" "x < X" "0 \<le> y" "y < Y" "0 \<le> z"
      and le: "X * Y \<le> 2 ^ 53" "x + y * X + z * X * Y \<le> 2 ^ 53"
  proof -
    have pos: "0 < X" "0 < X * Y" using b by auto
    have nn: "0 \<le> x + y * X + z * X * Y" "0 \<le> x + y * X" using b by simp_all
    have "\<bar>x\<bar> + \<bar>y\<bar> * X + \<bar>z\<bar> * X * Y \<le> 2 ^ 53"
      using b le(2) by (simp add: abs_of_nonneg)
    note f = calc[OF this]
    show ?thesis
      unfolding f
      using row_major_z[OF b] row_major_xy[OF b(1,2,3)] pos nn
      by (simp add: delin[OF le(1)] js_rem_nonneg)
  qed
  show ?thesis
    using linearize_consistent_value[OF cons, of g x y z] calc delin inv by simp
qed

theorem unknown_algorithm_row_major_fallback_witness:
  "fst (linearize (newGridCoordinate 3 2 2 ''diagonal'') None 2 1 1) = Some 11 \<and>
   calculateLinearPosition (newGridCoordinate 3 2 2 ''diagonal'') 2 1 1 = 11 \<and>
   delinearizeChunkIndex (newCellCoordinate 6 4 2 ''row-major'' (newGridCoordinate 3 2 2 ''diagonal'') 2 2 1) False 11
     = Inr (2, 1, 1) \<and>
   delinearizeChunkIndex (newCellCoordinate 6 4 2 ''row-major'' (newGridCoordinate 3 2 2 ''diagonal'') 2 2 1) False
     (calculateLinearPosition (newGridCoordinate 3 2 2 ''diagonal'') 2 1 1) = Inr (2, 1, 1)"
  using unknown_algorithm_row_major_fallback [of "''diagonal''" "newGridCoordinate 3 2 2 ''diagonal''" 3 2 2
      "newCellCoordinate 6 4 2 ''row-major'' (newGridCoordinate 3 2 2 ''diagonal'') 2 2 1" None 2 1 1 11 False]
  by (simp add: newCellCoordinate_def cache_consistent_def js_rem_def)

text \<open>
  The claim as stated fails when a value of the formula is not a double. On the grid of size
  \<open>(2 ^ 53, 1, 1)\<close> with the unknown identifier \<open>diagonal\<close>, \<open>linearize(1, 1, 0)\<close> returns
  \<open>2 ^ 53\<close>, while the row-major formula \<open>1 + 1 * 2 ^ 53 + 0\<close> is \<open>2 ^ 53 + 1\<close>.
\<close>

theorem unknown_algorithm_large_grid_counterexample:
  "fst (linearize (newGridCoordinate 9007199254740992 1 1 ''diagonal'') None 1 1 0)
     = Some 9007199254740992 \<and>
   calculateLinearPosition (newGridCoordinate 9007199254740992 1 1 ''diagonal'') 1 1 0
     = 9007199254740992 \<and>
   (1 :: int) + 1 * 9007199254740992 + 0 * 9007199254740992 * 1 = 9007199254740993"
  by code_simp

section \<open>Query analysis\<close>

lemma set_set_add [simp]: "set (set_add s v) = insert v (set s)"
  by (auto simp: set_add_def)

lemma distinct_set_add [simp]: "distinct s \<Longrightarrow> distinct (set_add s v)"
  by (simp add: set_add_def)




























subsection \<open>The computation returns\<close>

























subsection \<open>Requested cells, touched chunks and actual cells\<close>










section \<open>Colliding positions of the layered Hilbert order\<close>

text \<open>
  Claim C4 at the input \<open>(0, 32768)\<close>: bit 15 of \<open>y\<close> is shifted to bit 31, the sign bit of
  the 32-bit result, so the encoding is negative.
\<close>

theorem mortonEncode2D_negative: "mortonEncode2D 0 32768 = - 2147483648"
  by code_simp

text \<open>
  Claim C1 at array size \<open>(1, 3, 2)\<close> with one chunk and the Hilbert cell order: the raw
  position \<open>z * sizeX * sizeY + hilbertEncode2D x y 3\<close> is 3 for both \<open>(0, 1, 0)\<close> and
  \<open>(0, 0, 1)\<close>, the two cells share the global index 2, and no cell has index 1.
\<close>

theorem getGlobalIndex_hilbert_layers_collide:
  "map (\<lambda>(x, y, z).
          getGlobalIndex (getCellCoordinateSystem (1, 3, 2) (1, 3, 2) ''hilbert'' ''row-major'') x y z)
     [(0, 0, 0), (0, 1, 0), (0, 2, 0), (0, 0, 1), (0, 1, 1), (0, 2, 1)]
   = [Inr 0, Inr 2, Inr 3, Inr 2, Inr 4, Inr 5]"
  by code_simp

text \<open>
  Claim C2 at array size \<open>(1, 3, 3)\<close>, chunk size \<open>(1, 1, 2)\<close> and the Hilbert chunk order:
  the chunks \<open>(0, 1, 0)\<close> and \<open>(0, 0, 1)\<close> have the same raw position and both get the dense
  index 2, so the cell \<open>(0, 1, 1)\<close> with index pair \<open>(2, 1)\<close> and the cell \<open>(0, 2, 0)\<close> with
  index pair \<open>(3, 0)\<close> receive the same global index 5.
\<close>

theorem getGlobalIndex_order_broken_by_chunk_collision:
  "getGlobalIndex (getCellCoordinateSystem (1, 3, 3) (1, 1, 2) ''row-major'' ''hilbert'') 0 1 1 = Inr 5 \<and>
   getGlobalIndex (getCellCoordinateSystem (1, 3, 3) (1, 1, 2) ''row-major'' ''hilbert'') 0 2 0 = Inr 5 \<and>
   denseChunkIndex (getCellCoordinateSystem (1, 3, 3) (1, 1, 2) ''row-major'' ''hilbert'') 0 1 1 = Inr 2 \<and>
   denseLocalRank (getCellCoordinateSystem (1, 3, 3) (1, 1, 2) ''row-major'' ''hilbert'') 0 1 1 = Inr 1 \<and>
   denseChunkIndex (getCellCoordinateSystem (1, 3, 3) (1, 1, 2) ''row-major'' ''hilbert'') 0 2 0 = Inr 3 \<and>
   denseLocalRank (getCellCoordinateSystem (1, 3, 3) (1, 1, 2) ''row-major'' ''hilbert'') 0 2 0 = Inr 0"
  by code_simp

text \<open>
  Claim C5 at the configuration of C1 with the whole array queried: the global indices of
  the six actual cells are 0, 2, 2, 4, 3, 5, and the duplicate 2 starts a second range, so
  the ranges \<open>[2, 2]\<close> and \<open>[2, 5]\<close> overlap.
\<close>

theorem calculateData_ranges_overlap:
  "calculateData \<lparr>arraySize = (1, 3, 2), chunk = (1, 3, 2), cellAlgorithm = ''hilbert'',
      chunkAlgorithm = ''row-major'', queryX = (0, 0), queryY = (0, 2), queryZ = (0, 1)\<rparr>
   = Inr \<lparr>requestedCells = [(0, 0, 0), (0, 0, 1), (0, 1, 0), (0, 1, 1), (0, 2, 0), (0, 2, 1)],
          actualCells = [(0, 0, 0), (0, 0, 1), (0, 1, 0), (0, 1, 1), (0, 2, 0), (0, 2, 1)],
          touchedChunks = [0],
          chunkedRanges = [(0, 0), (2, 2), (2, 5)],
          unchunkedRanges = [(0, 0), (2, 2), (2, 5)],
          totalCells = 6\<rparr>"
  by code_simp

section \<open>The Hilbert curve\<close>

declare hilbertLoop.simps [simp del]

lemma js_and_pow2:
  assumes "j \<le> 30"
  shows "(js_and x (2 ^ j) > 0) = bit x j"
proof -
  have w: "toInt32 (2 ^ j) = 2 ^ j" by (simp add: toInt32_def)
  have a: "toInt32 x AND 2 ^ j = (if bit x j then 2 ^ j else 0)"
    using assms by (intro bit_word_eqI) (auto simp: bit_simps toInt32_def)
  have "(2::int) ^ j < 2 ^ 31" using assms by (intro power_strict_increasing) simp_all
  moreover have "- (2 ^ 31) \<le> (2::int) ^ j"
    by (rule order_trans[of _ 0]) simp_all
  ultimately have "signed_take_bit 31 ((2::int) ^ j) = 2 ^ j"
    by (intro signed_take_bit_int_eq_self) simp_all
  then have s: "sint (2 ^ j :: 32 word) = 2 ^ j"
    using sint_sbintrunc'[of "2 ^ j", where 'a = 32] by (simp add: word_of_int_2p)
  show ?thesis
    using assms by (simp add: js_and_def w a s)
qed

lemma js_xor_quadrant:
  "js_xor (3 * 0) 0 = 0" "js_xor (3 * 0) 1 = 1" "js_xor (3 * 1) 0 = 3" "js_xor (3 * 1) 1 = 2"
  by (simp_all add: js_xor_def toInt32_def)

declare hilbert2D_spec_loop.simps [simp del]

lemma hilbertLoop_zero: "hilbertLoop 0 x y d = d"
  by (subst hilbertLoop.simps) simp

lemma pow2_half: "(2::int) ^ Suc k div 2 = 2 ^ k"
  by simp

lemma hilbertLoop_step:
  assumes "j \<le> 30"
  shows "hilbertLoop (2 ^ j) x y d =
     (case hilbertRotate (2 ^ j) x y (of_bool (bit x j)) (of_bool (bit y j)) of
        (x1, y1) \<Rightarrow>
          hilbertLoop (2 ^ j div 2) x1 y1
            (d + 4 ^ j * js_xor (3 * of_bool (bit x j)) (of_bool (bit y j))))"
proof -
  have sq: "(2::int) ^ j * 2 ^ j = 4 ^ j"
    by (simp add: power_mult_distrib[symmetric])
  have b: "(if 0 < js_and v (2 ^ j) then 1 else 0) = (of_bool (bit v j) :: int)" for v
    using js_and_pow2[OF assms, of v] by simp
  show ?thesis
    by (subst hilbertLoop.simps) (simp add: b sq Let_def split: prod.splits)
qed

lemma quadrant_cases:
  "js_xor (3 * of_bool bx) (of_bool by) =
     (if by then (if bx then 2 else 1) else (if bx then 3 else 0))"
  using js_xor_quadrant by (cases bx; cases "by") simp_all

lemma hilbertLoop_acc:
  assumes "k \<le> 31"
  shows "hilbertLoop (2 ^ k div 2) x y d = d + hilbertLevels k x y"
  using assms
proof (induction k arbitrary: x y d)
  case 0
  show ?case by (simp add: hilbertLevels_def hilbertLoop_zero)
next
  case (Suc k)
  then have k: "k \<le> 30" "k \<le> 31" by simp_all
  obtain x1 y1 where r: "hilbertRotate (2 ^ k) x y (of_bool (bit x k)) (of_bool (bit y k)) = (x1, y1)"
    by (cases "hilbertRotate (2 ^ k) x y (of_bool (bit x k)) (of_bool (bit y k))")
  show ?case
    unfolding hilbertLevels_def pow2_half hilbertLoop_step[OF k(1)] r prod.case
    by (simp add: Suc.IH[OF k(2)])
qed

lemma hilbertLevels_Suc:
  assumes "k \<le> 30"
  shows "hilbertLevels (Suc k) x y =
     (case hilbertRotate (2 ^ k) x y (of_bool (bit x k)) (of_bool (bit y k)) of
        (x1, y1) \<Rightarrow>
          4 ^ k * js_xor (3 * of_bool (bit x k)) (of_bool (bit y k)) + hilbertLevels k x1 y1)"
proof -
  have k: "k \<le> 31" using assms by simp
  obtain x1 y1 where r: "hilbertRotate (2 ^ k) x y (of_bool (bit x k)) (of_bool (bit y k)) = (x1, y1)"
    by (cases "hilbertRotate (2 ^ k) x y (of_bool (bit x k)) (of_bool (bit y k))")
  have "hilbertLevels (Suc k) x y = hilbertLoop (2 ^ k) x y 0"
    by (simp add: hilbertLevels_def)
  also have "\<dots> = hilbertLoop (2 ^ k div 2) x1 y1
      (4 ^ k * js_xor (3 * of_bool (bit x k)) (of_bool (bit y k)))"
    unfolding hilbertLoop_step[OF assms] r by simp
  also have "\<dots> = 4 ^ k * js_xor (3 * of_bool (bit x k)) (of_bool (bit y k)) + hilbertLevels k x1 y1"
    by (rule hilbertLoop_acc[OF k])
  finally show ?thesis unfolding r by simp
qed

lemma hilbertLevels_0: "hilbertLevels 0 x y = 0"
  by (simp add: hilbertLevels_def hilbertLoop_zero)

lemma hilbertLevels_range:
  assumes "k \<le> 31"
  shows "0 \<le> hilbertLevels k x y \<and> hilbertLevels k x y < 4 ^ k"
  using assms
proof (induction k arbitrary: x y)
  case 0
  show ?case by (simp add: hilbertLevels_0)
next
  case (Suc k)
  then have k: "k \<le> 30" "k \<le> 31" by simp_all
  obtain x1 y1 where r: "hilbertRotate (2 ^ k) x y (of_bool (bit x k)) (of_bool (bit y k)) = (x1, y1)"
    by (cases "hilbertRotate (2 ^ k) x y (of_bool (bit x k)) (of_bool (bit y k))")
  define q where "q = js_xor (3 * of_bool (bit x k)) (of_bool (bit y k))"
  have q: "0 \<le> q" "q \<le> 3" by (simp_all add: q_def quadrant_cases)
  have ih: "0 \<le> hilbertLevels k x1 y1" "hilbertLevels k x1 y1 < 4 ^ k"
    using Suc.IH[OF k(2), of x1 y1] by simp_all
  have a: "4 ^ k * q \<le> 3 * 4 ^ k"
    using mult_left_mono[of q 3 "4 ^ k"] q by (simp add: mult.commute)
  have b: "0 \<le> 4 ^ k * q" using q by simp
  have e: "hilbertLevels (Suc k) x y = 4 ^ k * q + hilbertLevels k x1 y1"
    unfolding hilbertLevels_Suc[OF k(1)] r prod.case q_def ..
  show ?case unfolding e power_Suc using a b ih by linarith
qed

lemma mod_pow2_Suc:
  fixes x x' :: int
  assumes "x mod 2 ^ Suc k = x' mod 2 ^ Suc k"
  shows "x mod 2 ^ k = x' mod 2 ^ k" "bit x k = bit x' k"
proof -
  have d: "(2::int) ^ k dvd 2 ^ Suc k" by simp
  have "x mod 2 ^ k = (x mod 2 ^ Suc k) mod 2 ^ k" by (simp only: mod_mod_cancel[OF d])
  also have "\<dots> = (x' mod 2 ^ Suc k) mod 2 ^ k" by (simp only: assms)
  also have "\<dots> = x' mod 2 ^ k" by (simp only: mod_mod_cancel[OF d])
  finally show "x mod 2 ^ k = x' mod 2 ^ k" .
  have "bit x k = bit (take_bit (Suc k) x) k" by (simp add: bit_take_bit_iff)
  also have "\<dots> = bit (take_bit (Suc k) x') k" using assms by (simp only: take_bit_eq_mod)
  also have "\<dots> = bit x' k" by (simp add: bit_take_bit_iff)
  finally show "bit x k = bit x' k" .
qed

lemma reflect_cong:
  fixes y y' s :: int
  shows "(s - 1 - y) mod s = (s - 1 - y') mod s \<longleftrightarrow> y mod s = y' mod s"
proof
  assume a: "(s - 1 - y) mod s = (s - 1 - y') mod s"
  have "y mod s = (s - 1 - (s - 1 - y)) mod s" by simp
  also have "\<dots> = (s - 1 - (s - 1 - y')) mod s" using a by (rule mod_diff_cong[OF refl])
  finally show "y mod s = y' mod s" by simp
next
  assume "y mod s = y' mod s"
  then show "(s - 1 - y) mod s = (s - 1 - y') mod s" by (rule mod_diff_cong[OF refl])
qed

lemma hilbertRotate_cong:
  assumes "hilbertRotate (2 ^ k) x y (of_bool bx) (of_bool by) = (x1, y1)"
    and "hilbertRotate (2 ^ k) x' y' (of_bool bx) (of_bool by) = (x1', y1')"
  shows "(x1 mod 2 ^ k = x1' mod 2 ^ k \<and> y1 mod 2 ^ k = y1' mod 2 ^ k) \<longleftrightarrow>
         (x mod 2 ^ k = x' mod 2 ^ k \<and> y mod 2 ^ k = y' mod 2 ^ k)"
  using assms reflect_cong[of "2 ^ k" x x'] reflect_cong[of "2 ^ k" y y']
  by (cases bx; cases "by") (auto simp: hilbertRotate_def)

lemma hilbertLevels_cong:
  assumes "k \<le> 31" "x mod 2 ^ k = x' mod 2 ^ k" "y mod 2 ^ k = y' mod 2 ^ k"
  shows "hilbertLevels k x y = hilbertLevels k x' y'"
  using assms
proof (induction k arbitrary: x y x' y')
  case 0
  show ?case by (simp add: hilbertLevels_0)
next
  case (Suc k)
  then have k: "k \<le> 30" "k \<le> 31" by simp_all
  have bx: "bit x' k = bit x k" and lx: "x mod 2 ^ k = x' mod 2 ^ k"
    using mod_pow2_Suc[OF Suc.prems(2)] by simp_all
  have "by": "bit y' k = bit y k" and ly: "y mod 2 ^ k = y' mod 2 ^ k"
    using mod_pow2_Suc[OF Suc.prems(3)] by simp_all
  obtain x1 y1 where r: "hilbertRotate (2 ^ k) x y (of_bool (bit x k)) (of_bool (bit y k)) = (x1, y1)"
    by (cases "hilbertRotate (2 ^ k) x y (of_bool (bit x k)) (of_bool (bit y k))")
  obtain x1' y1' where r': "hilbertRotate (2 ^ k) x' y' (of_bool (bit x k)) (of_bool (bit y k)) = (x1', y1')"
    by (cases "hilbertRotate (2 ^ k) x' y' (of_bool (bit x k)) (of_bool (bit y k))")
  have c: "x1 mod 2 ^ k = x1' mod 2 ^ k" "y1 mod 2 ^ k = y1' mod 2 ^ k"
    using hilbertRotate_cong[OF r r'] lx ly by simp_all
  show ?case
    unfolding hilbertLevels_Suc[OF k(1)] bx "by" r r' prod.case
    using Suc.IH[OF k(2) c] by simp
qed

lemma quadrant_inj:
  assumes "js_xor (3 * of_bool bx) (of_bool by) = js_xor (3 * of_bool bx') (of_bool by')"
  shows "bx = bx' \<and> by = by'"
  using assms unfolding quadrant_cases by (cases bx; cases "by"; cases bx'; cases by') simp_all

lemma base_digits_unique:
  fixes a q q' r r' :: int
  assumes "a * q + r = a * q' + r'" "0 \<le> r" "r < a" "0 \<le> r'" "r' < a"
  shows "q = q' \<and> r = r'"
proof -
  have "(a * q + r) div a = q" using assms(2,3) by (simp add: div_pos_pos_trivial)
  moreover have "(a * q' + r') div a = q'" using assms(4,5) by (simp add: div_pos_pos_trivial)
  ultimately have "q = q'" using assms(1) by simp
  with assms(1) show ?thesis by simp
qed

lemma low_bits_and_top_bit:
  fixes x x' :: int
  assumes "0 \<le> x" "x < 2 ^ Suc k" "0 \<le> x'" "x' < 2 ^ Suc k"
    and "bit x k = bit x' k" "x mod 2 ^ k = x' mod 2 ^ k"
  shows "x = x'"
proof -
  have "x = take_bit (Suc k) x" using assms(1,2) by (simp add: take_bit_int_eq_self)
  also have "\<dots> = 2 ^ k * of_bool (bit x k) + take_bit k x" by (rule take_bit_Suc_from_most)
  also have "\<dots> = 2 ^ k * of_bool (bit x' k) + take_bit k x'"
    using assms(5,6) by (simp only: take_bit_eq_mod)
  also have "\<dots> = take_bit (Suc k) x'" by (rule take_bit_Suc_from_most[symmetric])
  also have "\<dots> = x'" using assms(3,4) by (simp add: take_bit_int_eq_self)
  finally show ?thesis .
qed

lemma hilbertLevels_inj:
  assumes "k \<le> 31"
    and "0 \<le> x" "x < 2 ^ k" "0 \<le> y" "y < 2 ^ k"
    and "0 \<le> x'" "x' < 2 ^ k" "0 \<le> y'" "y' < 2 ^ k"
    and "hilbertLevels k x y = hilbertLevels k x' y'"
  shows "x = x' \<and> y = y'"
  using assms
proof (induction k arbitrary: x y x' y')
  case 0
  then show ?case by simp
next
  case (Suc k)
  then have k: "k \<le> 30" "k \<le> 31" by simp_all
  let ?m = "(2::int) ^ k"
  obtain x1 y1 where r: "hilbertRotate ?m x y (of_bool (bit x k)) (of_bool (bit y k)) = (x1, y1)"
    by (cases "hilbertRotate ?m x y (of_bool (bit x k)) (of_bool (bit y k))")
  obtain x1' y1' where r': "hilbertRotate ?m x' y' (of_bool (bit x' k)) (of_bool (bit y' k)) = (x1', y1')"
    by (cases "hilbertRotate ?m x' y' (of_bool (bit x' k)) (of_bool (bit y' k))")
  have e: "4 ^ k * js_xor (3 * of_bool (bit x k)) (of_bool (bit y k)) + hilbertLevels k x1 y1 =
           4 ^ k * js_xor (3 * of_bool (bit x' k)) (of_bool (bit y' k)) + hilbertLevels k x1' y1'"
    using Suc.prems(10) unfolding hilbertLevels_Suc[OF k(1)] r r' prod.case .
  have u: "js_xor (3 * of_bool (bit x k)) (of_bool (bit y k)) =
           js_xor (3 * of_bool (bit x' k)) (of_bool (bit y' k)) \<and>
           hilbertLevels k x1 y1 = hilbertLevels k x1' y1'"
    using hilbertLevels_range[OF k(2), of x1 y1] hilbertLevels_range[OF k(2), of x1' y1']
    by (intro base_digits_unique[OF e]) simp_all
  then have bits: "bit x k = bit x' k" "bit y k = bit y' k"
    using quadrant_inj by blast+
  have m: "0 < ?m" by simp
  have "hilbertLevels k (x1 mod ?m) (y1 mod ?m) = hilbertLevels k (x1' mod ?m) (y1' mod ?m)"
    using u hilbertLevels_cong[OF k(2), of "x1 mod ?m" x1 "y1 mod ?m" y1]
      hilbertLevels_cong[OF k(2), of "x1' mod ?m" x1' "y1' mod ?m" y1'] by simp
  then have "x1 mod ?m = x1' mod ?m \<and> y1 mod ?m = y1' mod ?m"
    using m by (intro Suc.IH[OF k(2)]) simp_all
  then have low: "x mod ?m = x' mod ?m" "y mod ?m = y' mod ?m"
    using hilbertRotate_cong[OF r r'[folded bits]] by simp_all
  show ?case
    using low_bits_and_top_bit[OF Suc.prems(2,3,6,7) bits(1) low(1)]
      low_bits_and_top_bit[OF Suc.prems(4,5,8,9) bits(2) low(2)] by simp
qed

lemma int_xor_quadrant:
  "(3 * of_bool bx :: int) XOR of_bool by = js_xor (3 * of_bool bx) (of_bool by)"
  unfolding quadrant_cases by (cases bx; cases "by") simp_all

lemma spec_quadrant_bit: "(if v AND 2 ^ k \<noteq> 0 then 1 else 0) = (of_bool (bit v k) :: int)"
  for v :: int
  by (simp add: and_exp_eq_0_iff_not_bit)

lemma hilbert2D_spec_loop_step:
  "hilbert2D_spec_loop n (2 ^ k) x y d =
     (case (if \<not> bit y k
            then (if bit x k then (n - 1 - y, n - 1 - x) else (y, x))
            else (x, y)) of
        (x1, y1) \<Rightarrow>
          hilbert2D_spec_loop n (2 ^ k div 2) x1 y1
            (d + 4 ^ k * js_xor (3 * of_bool (bit x k)) (of_bool (bit y k))))"
proof -
  have sq: "((2::int) ^ k)\<^sup>2 = 4 ^ k"
    by (simp add: power2_eq_square power_mult_distrib[symmetric])
  have one: "(1::int) \<le> 2 ^ k" by simp
  have bx: "(x AND 2 ^ k \<noteq> 0) = bit x k" and "by": "(y AND 2 ^ k \<noteq> 0) = bit y k"
    by (simp_all add: and_exp_eq_0_iff_not_bit)
  have unf: "hilbert2D_spec_loop n (2 ^ k) x y d =
        (let rx = (if bit x k then 1 else (0::int));
             ry = (if bit y k then 1 else (0::int));
             d1 = d + 4 ^ k * ((3 * rx) XOR ry);
             (x1, y1) =
               (if ry = 0 then
                  (let (xr, yr) = (if rx = 1 then (n - 1 - x, n - 1 - y) else (x, y))
                   in (yr, xr))
                else (x, y))
         in hilbert2D_spec_loop n (2 ^ k div 2) x1 y1 d1)"
    by (subst hilbert2D_spec_loop.simps) (simp only: one if_True bx "by" sq)
  show ?thesis
  proof (cases "bit x k")
    case True
    note X = this
    show ?thesis
    proof (cases "bit y k")
      case True
      show ?thesis unfolding unf using X True js_xor_quadrant by (simp add: Let_def)
    next
      case False
      show ?thesis unfolding unf using X False js_xor_quadrant by (simp add: Let_def)
    qed
  next
    case False
    note X = this
    show ?thesis
    proof (cases "bit y k")
      case True
      show ?thesis unfolding unf using X True js_xor_quadrant by (simp add: Let_def)
    next
      case False
      show ?thesis unfolding unf using X False js_xor_quadrant by (simp add: Let_def)
    qed
  qed
qed

lemma hilbert2D_spec_loop_levels:
  assumes "k \<le> 31" "2 ^ k dvd n"
  shows "hilbert2D_spec_loop n (2 ^ k div 2) x y d = d + hilbertLevels k x y"
  using assms
proof (induction k arbitrary: x y d)
  case 0
  show ?case by (subst hilbert2D_spec_loop.simps) (simp add: hilbertLevels_0)
next
  case (Suc k)
  then have k: "k \<le> 30" "k \<le> 31" by simp_all
  have "(2::int) ^ k dvd 2 ^ Suc k" by simp
  then have dv: "2 ^ k dvd n" using Suc.prems(2) by (rule dvd_trans)
  then have n0: "n mod 2 ^ k = 0" by simp
  have refl: "(n - 1 - v) mod 2 ^ k = (2 ^ k - 1 - v) mod 2 ^ k" for v :: int
  proof -
    have "(n - 1 - v) mod 2 ^ k = (n + (- 1 - v)) mod 2 ^ k" by (simp add: algebra_simps)
    also have "\<dots> = (n mod 2 ^ k + (- 1 - v)) mod 2 ^ k" by (simp only: mod_add_left_eq)
    also have "\<dots> = (- 1 - v) mod 2 ^ k" by (simp only: n0 add_0)
    also have "\<dots> = (2 ^ k + (- 1 - v)) mod 2 ^ k" by (simp only: mod_add_self1)
    also have "2 ^ k + (- 1 - v) = 2 ^ k - 1 - v" by simp
    finally show ?thesis .
  qed
  obtain x1 y1 where r: "hilbertRotate (2 ^ k) x y (of_bool (bit x k)) (of_bool (bit y k)) = (x1, y1)"
    by (cases "hilbertRotate (2 ^ k) x y (of_bool (bit x k)) (of_bool (bit y k))")
  obtain xs ys where rs: "(if \<not> bit y k
            then (if bit x k then (n - 1 - y, n - 1 - x) else (y, x))
            else (x, y)) = (xs, ys)"
    by (cases "(if \<not> bit y k
            then (if bit x k then (n - 1 - y, n - 1 - x) else (y, x))
            else (x, y))")
  have c: "xs mod 2 ^ k = x1 mod 2 ^ k \<and> ys mod 2 ^ k = y1 mod 2 ^ k"
  proof (cases "bit y k")
    case True
    then show ?thesis using r rs by (simp add: hilbertRotate_def)
  next
    case False
    note Y = this
    show ?thesis
    proof (cases "bit x k")
      case True
      then have "x1 = 2 ^ k - 1 - y" "y1 = 2 ^ k - 1 - x" "xs = n - 1 - y" "ys = n - 1 - x"
        using r rs Y by (simp_all add: hilbertRotate_def)
      then show ?thesis using refl by simp
    next
      case False
      then show ?thesis using r rs Y by (simp add: hilbertRotate_def)
    qed
  qed
  have "hilbert2D_spec_loop n (2 ^ Suc k div 2) x y d =
      hilbert2D_spec_loop n (2 ^ k div 2) xs ys
        (d + 4 ^ k * js_xor (3 * of_bool (bit x k)) (of_bool (bit y k)))"
    unfolding pow2_half hilbert2D_spec_loop_step rs prod.case ..
  also have "\<dots> = d + 4 ^ k * js_xor (3 * of_bool (bit x k)) (of_bool (bit y k)) + hilbertLevels k xs ys"
    by (rule Suc.IH[OF k(2) dv])
  also have "hilbertLevels k xs ys = hilbertLevels k x1 y1"
    using c by (intro hilbertLevels_cong[OF k(2)]) simp_all
  also have "d + 4 ^ k * js_xor (3 * of_bool (bit x k)) (of_bool (bit y k)) + hilbertLevels k x1 y1
      = d + hilbertLevels (Suc k) x y"
    unfolding hilbertLevels_Suc[OF k(1)] r prod.case by simp
  finally show ?case .
qed

lemma hilbertEncode2D_levels:
  assumes "nextPowerOfTwo maxDim = 2 ^ k"
  shows "hilbertEncode2D x y maxDim = hilbertLevels k x y"
  by (simp add: hilbertEncode2D_def hilbertLevels_def assms Let_def)

text \<open>
  Claim C3, as amended. For a grid side \<open>n = 2 ^ k\<close> with \<open>k \<le> 26\<close> (so that every
  intermediate value, \<open>n\<^sup>2\<close> included, is an exact double), \<open>hilbertEncode2D\<close> is a
  bijection from \<open>[0, n) \<times> [0, n)\<close> onto \<open>[0, n\<^sup>2)\<close> and returns what the recurrence of the
  specification returns, although the code reflects with the current scale \<open>s\<close> where the
  specification reflects with \<open>n\<close>.
\<close>

theorem hilbertEncode2D_bijection:
  assumes n: "nextPowerOfTwo maxDim = 2 ^ k" and k: "k \<le> 26"
  shows "bij_betw (\<lambda>(x, y). hilbertEncode2D x y maxDim)
           ({0..<2 ^ k} \<times> {0..<2 ^ k}) {0..<2 ^ k * 2 ^ k} \<and>
         (\<forall>x y. hilbertEncode2D x y maxDim = hilbert2D_spec (2 ^ k) x y)"
proof -
  have k31: "k \<le> 31" using k by simp
  let ?D = "{0..<(2::int) ^ k} \<times> {0..<(2::int) ^ k}"
  let ?f = "\<lambda>(x, y). hilbertEncode2D x y maxDim"
  have sq: "(2::int) ^ k * 2 ^ k = 4 ^ k" by (simp add: power_mult_distrib[symmetric])
  have inj: "inj_on ?f ?D"
  proof (rule inj_onI)
    fix a b assume a: "a \<in> ?D" and b: "b \<in> ?D" and e: "?f a = ?f b"
    obtain x y where ax: "a = (x, y)" by (cases a)
    obtain x' y' where bx: "b = (x', y')" by (cases b)
    have "hilbertLevels k x y = hilbertLevels k x' y'"
      using e by (simp add: ax bx hilbertEncode2D_levels[OF n])
    moreover have "0 \<le> x" "x < 2 ^ k" "0 \<le> y" "y < 2 ^ k" using a by (simp_all add: ax)
    moreover have "0 \<le> x'" "x' < 2 ^ k" "0 \<le> y'" "y' < 2 ^ k" using b by (simp_all add: bx)
    ultimately have "x = x' \<and> y = y'" by (intro hilbertLevels_inj[OF k31])
    then show "a = b" by (simp add: ax bx)
  qed
  have sub: "?f ` ?D \<subseteq> {0..<2 ^ k * 2 ^ k}"
  proof
    fix v assume "v \<in> ?f ` ?D"
    then obtain x y where "v = hilbertLevels k x y"
      by (auto simp: hilbertEncode2D_levels[OF n])
    then show "v \<in> {0..<2 ^ k * 2 ^ k}"
      using hilbertLevels_range[OF k31, of x y] by (simp add: sq)
  qed
  have cD: "card ?D = nat (2 ^ k) * nat (2 ^ k)"
    by (simp only: card_cartesian_product card_atLeastLessThan_int diff_zero)
  have cT: "card {0..<(2::int) ^ k * 2 ^ k} = nat (2 ^ k) * nat (2 ^ k)"
    by (simp only: card_atLeastLessThan_int diff_zero) (simp add: nat_mult_distrib)
  have "card (?f ` ?D) = card ?D" by (rule card_image[OF inj])
  then have "card (?f ` ?D) = card {0..<(2::int) ^ k * 2 ^ k}" by (simp only: cD cT)
  then have "?f ` ?D = {0..<2 ^ k * 2 ^ k}"
    by (intro card_subset_eq[OF _ sub]) simp_all
  then have bij: "bij_betw ?f ?D {0..<2 ^ k * 2 ^ k}"
    using inj by (simp only: bij_betw_def)
  have spec: "hilbertEncode2D x y maxDim = hilbert2D_spec (2 ^ k) x y" for x y
  proof -
    have "hilbert2D_spec (2 ^ k) x y = 0 + hilbertLevels k x y"
      unfolding hilbert2D_spec_def by (rule hilbert2D_spec_loop_levels[OF k31]) simp
    then show ?thesis by (simp add: hilbertEncode2D_levels[OF n])
  qed
  show ?thesis using bij spec by blast
qed


theorem hilbertEncode2D_bijection_witness:
  "nextPowerOfTwo 3 = 2 ^ 2 \<and> (2::nat) \<le> 26 \<and>
   bij_betw (\<lambda>(x, y). hilbertEncode2D x y 3) ({0..<2 ^ 2} \<times> {0..<2 ^ 2}) {0..<2 ^ 2 * 2 ^ 2} \<and>
   hilbertEncode2D 2 1 3 = hilbert2D_spec (2 ^ 2) 2 1"
proof -
  have n: "nextPowerOfTwo 3 = 2 ^ 2" by code_simp
  have le: "(2::nat) \<le> 26" by simp
  from hilbertEncode2D_bijection [OF n le] show ?thesis using n le by blast
qed

text \<open>
  The claim as stated fails for \<open>n = 2 ^ 32\<close>: at the scale \<open>s = 2 ^ 31\<close> the operator \<open>&\<close>
  yields the negative number \<open>- 2 ^ 31\<close>, the test \<open>(x & s) > 0\<close> fails, and the points
  \<open>(2 ^ 31, 0)\<close> and \<open>(0, 0)\<close> are both encoded as 0.
\<close>

theorem hilbertEncode2D_large_grid_counterexample:
  "nextPowerOfTwo 4294967296 = 4294967296 \<and>
   hilbertEncode2D 2147483648 0 4294967296 = 0 \<and>
   hilbertEncode2D 0 0 4294967296 = 0"
  by code_simp

end
